theory Spec2Isabelle
  imports Main "HOL-Library.Sublist"
begin

section \<open>Optimistic Category mutations over the query cache\<close>

text \<open>
  The class \<open>CategoryMutations\<close> holds four mutation objects (create, update, reposition,
  delete). Each one gives the mutation library four hooks: \<open>onMutate\<close>, \<open>onError\<close>,
  \<open>onSuccess\<close> and \<open>onSettled\<close>. The hooks read and write the query cache under the one
  key \<open>'categories'\<close> and show toasts.

  JavaScript arrays are objects: \<open>getQueryData\<close> hands out the array the cache holds, and
  the updater given to \<open>setQueryData\<close> receives that same array. Two of the updaters write
  into it (\<open>oldCategories[i] = ...\<close>, \<open>oldCategories.splice\<close>), so arrays live in an
  explicit store and the cache and the mutation context hold references into it.
\<close>

subsection \<open>Data\<close>

text \<open>
  A \<open>CategoryEntity\<close> is an object: a finite map from property names to values. The type
  of values is left open. The entity objects themselves are never written to by the hooks
  (update builds a new object by spreading), so they are kept as values inside the arrays.
\<close>

type_synonym 'v CategoryEntity = "string \<Rightarrow> 'v option"

type_synonym ref = nat

datatype effect =
    CancelQueries string
  | SetQueryData string
  | InvalidateQueries string
  | ToastError string
  | ToastSuccess string

text \<open>
  \<open>heap\<close>: the array objects, a reference is an index into it; arrays are only ever
  added at the end, so a reference stays valid.
  \<open>categories\<close>: what the query client holds under \<open>'categories'\<close> (\<open>None\<close> is
  \<open>undefined\<close>).
  \<open>effects\<close>: the calls made on the query client and on \<open>toast\<close>, oldest first.
\<close>

record 'v world =
  heap :: "'v CategoryEntity list list"
  categories :: "ref option"
  effects :: "effect list"

text \<open>The mutation context returned by \<open>onMutate\<close>: \<open>{ previousCategories }\<close>.\<close>

record mutationContext =
  previousCategories :: "ref option"

text \<open>
  The variables of the four mutations: \<open>{ createCategoryDto }\<close>,
  \<open>{ categoryId, updateCategoryDto }\<close>, \<open>{ categoryId, newPosition }\<close>, \<open>{ categoryId }\<close>.
  An array position is an integer.
\<close>

datatype ('v, 'd) variables =
    CreateVars 'd
  | UpdateVars 'v "'v CategoryEntity"
  | RepositionVars 'v int
  | DeleteVars 'v

text \<open>
  What the transport call ends with, as the hooks look at it. \<open>Resolved t\<close>: it succeeded
  and \<open>t\<close> is the text the success toast interpolates (\<open>category.title\<close>, or
  \<open>deleteResult.affected\<close>). \<open>Rejected e\<close>: it failed with an error value; \<open>e = None\<close>
  when that value is falsy, \<open>e = Some s\<close> when it is truthy and \<open>String(err)\<close> is \<open>s\<close>.
\<close>

datatype outcome = Resolved string | Rejected "string option"

subsection \<open>Arrays\<close>

text \<open>The Collection the cache shows: the contents of the array it refers to.\<close>

definition cached :: "'v world \<Rightarrow> 'v CategoryEntity list option" where
  "cached s =
     (case categories s of
        None \<Rightarrow> None
      | Some r \<Rightarrow> if r < length (heap s) then Some (heap s ! r) else None)"

text \<open>A new array object (\<open>[...]\<close>, \<open>filter\<close>): a fresh reference.\<close>

definition alloc :: "'a list \<Rightarrow> 'a list list \<Rightarrow> ref \<times> 'a list list" where
  "alloc xs h = (length h, h @ [xs])"

text \<open>
  \<open>Array.prototype.splice\<close> resolves its start index against the length: a negative
  start counts from the end, and the result is clamped to \<open>0 .. length\<close>.
\<close>

definition splice_start :: "int \<Rightarrow> nat \<Rightarrow> nat" where
  "splice_start start len =
     (if start < 0 then nat (max (int len + start) 0) else min (nat start) len)"

text \<open>\<open>xs.splice(start, 1)\<close>: the array after the call.\<close>

definition splice_delete1 :: "int \<Rightarrow> 'a list \<Rightarrow> 'a list" where
  "splice_delete1 start xs =
     (let k = splice_start start (length xs) in take k xs @ drop (Suc k) xs)"

text \<open>\<open>xs.splice(start, 0, x)\<close>: the array after the call.\<close>

definition splice_insert :: "int \<Rightarrow> 'a \<Rightarrow> 'a list \<Rightarrow> 'a list" where
  "splice_insert start x xs =
     (let k = splice_start start (length xs) in take k xs @ [x] @ drop k xs)"

text \<open>
  \<open>xs[i] = v\<close>. Inside the array the element is replaced, at \<open>i = length\<close> the array
  grows by one, a negative \<open>i\<close> is not an array index and leaves the elements alone.
  Beyond the end JavaScript would pad with holes, which a list cannot hold: that branch
  returns the list as it is and is never reached, because the index written to is the
  index of an element that was found (\<open>locate_Some\<close>).
\<close>

definition array_set :: "int \<Rightarrow> 'a \<Rightarrow> 'a list \<Rightarrow> 'a list" where
  "array_set i v xs =
     (if 0 \<le> i \<and> nat i < length xs then xs[nat i := v]
      else if i = int (length xs) then xs @ [v]
      else xs)"

subsection \<open>Helpers imported from the utilities\<close>

text \<open>
  Modelled from the spec: \<open>findObjectAndIndexCloneDeep\<close> is imported from
  \<open>../utils/common.utils\<close>, which is not among the sources. Section 4.1:
  "the index of the first matching element (or a not-found sentinel) and an independently
  owned deep clone of that element (or absent if not found)". The sentinel is taken to be
  \<open>-1\<close>; the hooks never read the index when the clone is absent. A deep clone of an
  entity is the same value. \<open>locate p xs k\<close> scans \<open>xs\<close>, whose first element has
  index \<open>k\<close>.
\<close>

fun locate :: "('a \<Rightarrow> bool) \<Rightarrow> 'a list \<Rightarrow> nat \<Rightarrow> int \<times> 'a option" where
  "locate p [] k = (- 1, None)"
| "locate p (x # xs) k = (if p x then (int k, Some x) else locate p xs (Suc k))"

text \<open>
  Modelled from the spec: \<open>findObjectAndIndexCloneDeep(predicate, array)\<close> is the search
  above started at index 0.
\<close>

definition findObjectAndIndexCloneDeep :: "('a \<Rightarrow> bool) \<Rightarrow> 'a list \<Rightarrow> int \<times> 'a option" where
  "findObjectAndIndexCloneDeep p xs = locate p xs 0"

text \<open>
  \<open>({ id }) => id === categoryId\<close>: the entity's \<open>id\<close> property is the given identity.
\<close>

definition hasId :: "'v \<Rightarrow> 'v CategoryEntity \<Rightarrow> bool" where
  "hasId categoryId e = (e ''id'' = Some categoryId)"

subsection \<open>The query client and toast\<close>

definition cancelQueries :: "'v world \<Rightarrow> 'v world" where
  "cancelQueries s = s\<lparr>effects := effects s @ [CancelQueries ''categories'']\<rparr>"

definition getQueryData :: "'v world \<Rightarrow> ref option" where
  "getQueryData s = categories s"

text \<open>\<open>setQueryData('categories', data)\<close>: the cache now holds the array given.\<close>

definition setQueryData :: "ref \<Rightarrow> 'v world \<Rightarrow> 'v world" where
  "setQueryData r s =
     s\<lparr>categories := Some r, effects := effects s @ [SetQueryData ''categories'']\<rparr>"

text \<open>
  \<open>setQueryData('categories', updater)\<close>: the updater is called with what the cache
  holds, may write to the arrays, and the array it returns is stored.
\<close>

definition setQueryDataWith ::
  "(ref option \<Rightarrow> 'v CategoryEntity list list \<Rightarrow> ref \<times> 'v CategoryEntity list list)
     \<Rightarrow> 'v world \<Rightarrow> 'v world" where
  "setQueryDataWith updater s =
     (case updater (categories s) (heap s) of
        (r, h) \<Rightarrow> setQueryData r (s\<lparr>heap := h\<rparr>))"

definition invalidateQueries :: "'v world \<Rightarrow> 'v world" where
  "invalidateQueries s = s\<lparr>effects := effects s @ [InvalidateQueries ''categories'']\<rparr>"

definition toast_error :: "string \<Rightarrow> 'v world \<Rightarrow> 'v world" where
  "toast_error msg s = s\<lparr>effects := effects s @ [ToastError msg]\<rparr>"

definition toast_success :: "string \<Rightarrow> 'v world \<Rightarrow> 'v world" where
  "toast_success msg s = s\<lparr>effects := effects s @ [ToastSuccess msg]\<rparr>"

text \<open>\<open>err ? `\n${String(err)}` : ''\<close>\<close>

definition errSuffix :: "string option \<Rightarrow> string" where
  "errSuffix err = (case err of Some s \<Rightarrow> CHR 0x0A # s | None \<Rightarrow> [])"

subsection \<open>The updaters\<close>

text \<open>
  Create. \<open>createOptimisticCategory\<close> is imported from \<open>../utils/entity.utils\<close>, which is
  not among the sources; the entity it makes for the request is the parameter
  \<open>optimisticNewCategory\<close>.
\<close>

definition create_updater ::
  "'v CategoryEntity \<Rightarrow> ref option \<Rightarrow> 'v CategoryEntity list list
     \<Rightarrow> ref \<times> 'v CategoryEntity list list" where
  "create_updater optimisticNewCategory oldCategories h =
     (case oldCategories of
        Some r \<Rightarrow> alloc (h ! r @ [optimisticNewCategory]) h
      | None \<Rightarrow> alloc [optimisticNewCategory] h)"

text \<open>Update: the merged object is written into the array that was passed in.\<close>

definition update_updater ::
  "'v \<Rightarrow> 'v CategoryEntity \<Rightarrow> ref option \<Rightarrow> 'v CategoryEntity list list
     \<Rightarrow> ref \<times> 'v CategoryEntity list list" where
  "update_updater categoryId updateCategoryDto oldCategories h =
     (case oldCategories of
        Some r \<Rightarrow>
          (case findObjectAndIndexCloneDeep (hasId categoryId) (h ! r) of
             (targetCategoryIndex, Some targetCategoryClone) \<Rightarrow>
               (r, h[r := array_set targetCategoryIndex
                            (targetCategoryClone ++ updateCategoryDto) (h ! r)])
           | (targetCategoryIndex, None) \<Rightarrow> alloc [] h)
      | None \<Rightarrow> alloc [] h)"

text \<open>Reposition: the two \<open>splice\<close> calls work on the array that was passed in.\<close>

definition reposition_updater ::
  "'v \<Rightarrow> int \<Rightarrow> ref option \<Rightarrow> 'v CategoryEntity list list
     \<Rightarrow> ref \<times> 'v CategoryEntity list list" where
  "reposition_updater categoryId newPosition oldCategories h =
     (case oldCategories of
        Some r \<Rightarrow>
          (case findObjectAndIndexCloneDeep (hasId categoryId) (h ! r) of
             (targetCategoryIndex, Some targetCategoryClone) \<Rightarrow>
               if newPosition = targetCategoryIndex
                  \<or> newPosition \<ge> int (length (h ! r))
                  \<or> newPosition < 0
               then (r, h)
               else (r, h[r := splice_insert newPosition targetCategoryClone
                                 (splice_delete1 targetCategoryIndex (h ! r))])
           | (targetCategoryIndex, None) \<Rightarrow> (r, h))
      | None \<Rightarrow> alloc [] h)"

text \<open>Delete: \<open>filter\<close> makes a new array.\<close>

definition delete_updater ::
  "'v \<Rightarrow> ref option \<Rightarrow> 'v CategoryEntity list list
     \<Rightarrow> ref \<times> 'v CategoryEntity list list" where
  "delete_updater categoryId oldCategories h =
     (case oldCategories of
        Some r \<Rightarrow> alloc (filter (\<lambda>e. \<not> hasId categoryId e) (h ! r)) h
      | None \<Rightarrow> alloc [] h)"

subsection \<open>createCategoryMutation\<close>

definition createCategory_onMutate ::
  "('d \<Rightarrow> 'v CategoryEntity) \<Rightarrow> 'd \<Rightarrow> 'v world \<Rightarrow> mutationContext \<times> 'v world" where
  "createCategory_onMutate createOptimisticCategory createCategoryDto s =
     (let s1 = cancelQueries s;
          previousCategories = getQueryData s1;
          s2 = setQueryDataWith (create_updater (createOptimisticCategory createCategoryDto)) s1
      in (\<lparr>previousCategories = previousCategories\<rparr>, s2))"

text \<open>
  \<open>if (context?.previousCategories)\<close>: the context may be missing, and an array, empty or
  not, is truthy.
\<close>

definition createCategory_onError ::
  "string option \<Rightarrow> mutationContext option \<Rightarrow> 'v world \<Rightarrow> 'v world" where
  "createCategory_onError err ctxt s =
     (let s1 = (case ctxt of
                  Some c \<Rightarrow>
                    (case previousCategories c of
                       Some r \<Rightarrow> setQueryData r s
                     | None \<Rightarrow> s)
                | None \<Rightarrow> s)
      in toast_error (''An error occurred while creating a new Category'' @ errSuffix err) s1)"

definition createCategory_onSettled :: "'v world \<Rightarrow> 'v world" where
  "createCategory_onSettled s = invalidateQueries s"

definition createCategory_onSuccess :: "string \<Rightarrow> 'v world \<Rightarrow> 'v world" where
  \<open>createCategory_onSuccess title s =
     toast_success (''Category "'' @ title @ ''" created!'') s\<close>

subsection \<open>updateCategoryMutation\<close>

definition updateCategory_onMutate ::
  "'v \<Rightarrow> 'v CategoryEntity \<Rightarrow> 'v world \<Rightarrow> mutationContext \<times> 'v world" where
  "updateCategory_onMutate categoryId updateCategoryDto s =
     (let s1 = cancelQueries s;
          previousCategories = getQueryData s1;
          s2 = setQueryDataWith (update_updater categoryId updateCategoryDto) s1
      in (\<lparr>previousCategories = previousCategories\<rparr>, s2))"

definition updateCategory_onError ::
  "string option \<Rightarrow> mutationContext option \<Rightarrow> 'v world \<Rightarrow> 'v world" where
  "updateCategory_onError err ctxt s =
     (let s1 = (case ctxt of
                  Some c \<Rightarrow>
                    (case previousCategories c of
                       Some r \<Rightarrow> setQueryData r s
                     | None \<Rightarrow> s)
                | None \<Rightarrow> s)
      in toast_error (''An error occurred while updating Category'' @ errSuffix err) s1)"

definition updateCategory_onSettled :: "'v world \<Rightarrow> 'v world" where
  "updateCategory_onSettled s = invalidateQueries s"

definition updateCategory_onSuccess :: "string \<Rightarrow> 'v world \<Rightarrow> 'v world" where
  \<open>updateCategory_onSuccess title s =
     toast_success (''Category "'' @ title @ ''" updated!'') s\<close>

subsection \<open>repositionCategoryMutation\<close>

definition repositionCategory_onMutate ::
  "'v \<Rightarrow> int \<Rightarrow> 'v world \<Rightarrow> mutationContext \<times> 'v world" where
  "repositionCategory_onMutate categoryId newPosition s =
     (let s1 = cancelQueries s;
          previousCategories = getQueryData s1;
          s2 = setQueryDataWith (reposition_updater categoryId newPosition) s1
      in (\<lparr>previousCategories = previousCategories\<rparr>, s2))"

definition repositionCategory_onError ::
  "string option \<Rightarrow> mutationContext option \<Rightarrow> 'v world \<Rightarrow> 'v world" where
  "repositionCategory_onError err ctxt s =
     (let s1 = (case ctxt of
                  Some c \<Rightarrow>
                    (case previousCategories c of
                       Some r \<Rightarrow> setQueryData r s
                     | None \<Rightarrow> s)
                | None \<Rightarrow> s)
      in toast_error (''An error occurred while repositioning Category'' @ errSuffix err) s1)"

definition repositionCategory_onSettled :: "'v world \<Rightarrow> 'v world" where
  "repositionCategory_onSettled s = invalidateQueries s"

definition repositionCategory_onSuccess :: "string \<Rightarrow> 'v world \<Rightarrow> 'v world" where
  \<open>repositionCategory_onSuccess title s =
     toast_success (''Category "'' @ title @ ''" repositioned!'') s\<close>

subsection \<open>deleteCategoryMutation\<close>

definition deleteCategory_onMutate ::
  "'v \<Rightarrow> 'v world \<Rightarrow> mutationContext \<times> 'v world" where
  "deleteCategory_onMutate categoryId s =
     (let s1 = cancelQueries s;
          previousCategories = getQueryData s1;
          s2 = setQueryDataWith (delete_updater categoryId) s1
      in (\<lparr>previousCategories = previousCategories\<rparr>, s2))"

definition deleteCategory_onError ::
  "string option \<Rightarrow> mutationContext option \<Rightarrow> 'v world \<Rightarrow> 'v world" where
  "deleteCategory_onError err ctxt s =
     (let s1 = (case ctxt of
                  Some c \<Rightarrow>
                    (case previousCategories c of
                       Some r \<Rightarrow> setQueryData r s
                     | None \<Rightarrow> s)
                | None \<Rightarrow> s)
      in toast_error (''An error occurred while deleting the Category'' @ errSuffix err) s1)"

definition deleteCategory_onSettled :: "'v world \<Rightarrow> 'v world" where
  "deleteCategory_onSettled s = invalidateQueries s"

definition deleteCategory_onSuccess :: "string \<Rightarrow> 'v world \<Rightarrow> 'v world" where
  "deleteCategory_onSuccess affected s =
     toast_success (affected @ '' Category deleted!'') s"

subsection \<open>One invocation\<close>

text \<open>The hooks of the mutation object that the variables belong to.\<close>

fun onMutate ::
  "('d \<Rightarrow> 'v CategoryEntity) \<Rightarrow> ('v, 'd) variables \<Rightarrow> 'v world \<Rightarrow> mutationContext \<times> 'v world" where
  "onMutate mk (CreateVars dto) s = createCategory_onMutate mk dto s"
| "onMutate mk (UpdateVars categoryId dto) s = updateCategory_onMutate categoryId dto s"
| "onMutate mk (RepositionVars categoryId newPosition) s =
     repositionCategory_onMutate categoryId newPosition s"
| "onMutate mk (DeleteVars categoryId) s = deleteCategory_onMutate categoryId s"

fun onError ::
  "('v, 'd) variables \<Rightarrow> string option \<Rightarrow> mutationContext option \<Rightarrow> 'v world \<Rightarrow> 'v world" where
  "onError (CreateVars dto) err ctxt s = createCategory_onError err ctxt s"
| "onError (UpdateVars categoryId dto) err ctxt s = updateCategory_onError err ctxt s"
| "onError (RepositionVars categoryId newPosition) err ctxt s =
     repositionCategory_onError err ctxt s"
| "onError (DeleteVars categoryId) err ctxt s = deleteCategory_onError err ctxt s"

fun onSuccess :: "('v, 'd) variables \<Rightarrow> string \<Rightarrow> 'v world \<Rightarrow> 'v world" where
  "onSuccess (CreateVars dto) t s = createCategory_onSuccess t s"
| "onSuccess (UpdateVars categoryId dto) t s = updateCategory_onSuccess t s"
| "onSuccess (RepositionVars categoryId newPosition) t s = repositionCategory_onSuccess t s"
| "onSuccess (DeleteVars categoryId) t s = deleteCategory_onSuccess t s"

fun onSettled :: "('v, 'd) variables \<Rightarrow> 'v world \<Rightarrow> 'v world" where
  "onSettled (CreateVars dto) s = createCategory_onSettled s"
| "onSettled (UpdateVars categoryId dto) s = updateCategory_onSettled s"
| "onSettled (RepositionVars categoryId newPosition) s = repositionCategory_onSettled s"
| "onSettled (DeleteVars categoryId) s = deleteCategory_onSettled s"

text \<open>
  The four \<open>onError\<close> hooks start with the same statement,
  \<open>if (context?.previousCategories) setQueryData('categories', context.previousCategories)\<close>.
  \<open>restore\<close> names it for the lemmas; \<open>onError_shape\<close> shows that each hook is this
  statement followed by its toast.
\<close>

definition restore :: "mutationContext option \<Rightarrow> 'v world \<Rightarrow> 'v world" where
  "restore ctxt s =
     (case ctxt of
        Some c \<Rightarrow> (case previousCategories c of Some r \<Rightarrow> setQueryData r s | None \<Rightarrow> s)
      | None \<Rightarrow> s)"

text \<open>
  The state of the cache and the context once the ERROR phase of a failed invocation is
  over: \<open>onMutate\<close>, the transport call fails with \<open>err\<close>, \<open>onError\<close> gets the context
  that \<open>onMutate\<close> returned.
\<close>

definition afterError ::
  "('d \<Rightarrow> 'v CategoryEntity) \<Rightarrow> ('v, 'd) variables \<Rightarrow> string option \<Rightarrow> 'v world \<Rightarrow> 'v world" where
  "afterError mk vars err s =
     (case onMutate mk vars s of (ctxt, s1) \<Rightarrow> onError vars err (Some ctxt) s1)"

text \<open>
  Modelled from the spec: the order in which the hooks of one invocation run is fixed by
  \<open>useMutation\<close> of the mutation library, which is not among the sources. Section 4.3:
  SNAPSHOT and APPLY (\<open>onMutate\<close>), the transport call, then SUCCESS (\<open>onSuccess\<close>) or
  ERROR (\<open>onError\<close>), then SETTLED (\<open>onSettled\<close>), "fully serialized per invocation".
\<close>

definition runMutation ::
  "('d \<Rightarrow> 'v CategoryEntity) \<Rightarrow> ('v, 'd) variables \<Rightarrow> outcome \<Rightarrow> 'v world \<Rightarrow> 'v world" where
  "runMutation mk vars result s =
     (case result of
        Resolved t \<Rightarrow> onSettled vars (onSuccess vars t (snd (onMutate mk vars s)))
      | Rejected err \<Rightarrow> onSettled vars (afterError mk vars err s))"

subsection \<open>A board to run the hooks on\<close>

text \<open>
  Property values for the examples, and the Collection
  \<open>[{id:1,title:"A"}, {id:2,title:"B"}, {id:3,title:"C"}]\<close> held by the cache;
  \<open>noBoard\<close> is a cache with nothing under the key. \<open>exampleFactory\<close> stands in for
  \<open>createOptimisticCategory\<close> where an example needs one: the request with identity 0.
\<close>

datatype jsval = Num int | Str string

definition catA :: "jsval CategoryEntity" where
  "catA = [''id'' \<mapsto> Num 1, ''title'' \<mapsto> Str ''A'']"
definition catB :: "jsval CategoryEntity" where
  "catB = [''id'' \<mapsto> Num 2, ''title'' \<mapsto> Str ''B'']"
definition catC :: "jsval CategoryEntity" where
  "catC = [''id'' \<mapsto> Num 3, ''title'' \<mapsto> Str ''C'']"
definition board :: "jsval world" where
  "board = \<lparr>heap = [[catA, catB, catC]], categories = Some 0, effects = []\<rparr>"
definition noBoard :: "jsval world" where
  "noBoard = \<lparr>heap = [], categories = None, effects = []\<rparr>"
definition exampleFactory :: "jsval CategoryEntity \<Rightarrow> jsval CategoryEntity" where
  "exampleFactory dto = dto(''id'' \<mapsto> Num 0)"
definition titleD :: "jsval CategoryEntity" where
  "titleD = [''title'' \<mapsto> Str ''D'']"


section \<open>Properties\<close>

subsection \<open>Locating an element\<close>

lemma locate_None: "\<forall>x\<in>set xs. \<not> p x \<Longrightarrow> locate p xs k = (- 1, None)"
  by (induction xs arbitrary: k) auto

lemma locate_Some:
  "i < length xs \<Longrightarrow> p (xs ! i) \<Longrightarrow> \<forall>j<i. \<not> p (xs ! j)
     \<Longrightarrow> locate p xs k = (int (k + i), Some (xs ! i))"
proof (induction xs arbitrary: i k)
  case Nil
  then show ?case by simp
next
  case (Cons x xs)
  show ?case
  proof (cases i)
    case 0
    with Cons.prems show ?thesis by simp
  next
    case (Suc m)
    with Cons.prems have "\<not> p x" by auto
    moreover have "locate p xs (Suc k) = (int (Suc k + m), Some (xs ! m))"
      using Cons.prems Suc by (intro Cons.IH) auto
    ultimately show ?thesis using Suc by simp
  qed
qed

lemma find_found:
  "i < length xs \<Longrightarrow> p (xs ! i) \<Longrightarrow> \<forall>j<i. \<not> p (xs ! j)
     \<Longrightarrow> findObjectAndIndexCloneDeep p xs = (int i, Some (xs ! i))"
  using locate_Some [of i xs p 0] by (simp add: findObjectAndIndexCloneDeep_def)

lemma find_missing:
  "\<forall>x\<in>set xs. \<not> p x \<Longrightarrow> findObjectAndIndexCloneDeep p xs = (- 1, None)"
  by (simp add: findObjectAndIndexCloneDeep_def locate_None)

lemma unique_is_first:
  assumes "distinct (map (\<lambda>e. e ''id'') xs)" "i < length xs" "hasId cid (xs ! i)"
  shows "\<forall>j<i. \<not> hasId cid (xs ! j)"
proof (intro allI impI notI)
  fix j assume j: "j < i" and h: "hasId cid (xs ! j)"
  let ?ids = "map (\<lambda>e. e ''id'') xs"
  have "?ids ! j = ?ids ! i"
    using assms(2,3) j h by (simp add: hasId_def)
  moreover have "j < length ?ids" "i < length ?ids"
    using assms(2) j by simp_all
  ultimately have "j = i"
    using assms(1) nth_eq_iff_index_eq by blast
  with j show False by simp
qed


subsection \<open>What each transform leaves in the cache\<close>

lemma cachedD:
  "cached s = Some xs \<Longrightarrow> \<exists>r. categories s = Some r \<and> r < length (heap s) \<and> heap s ! r = xs"
  by (auto simp: cached_def split: option.splits if_splits)

lemma splice_delete1_nth:
  "i < length xs \<Longrightarrow> splice_delete1 (int i) xs = take i xs @ drop (Suc i) xs"
  by (simp add: splice_delete1_def splice_start_def)

lemma splice_insert_nth:
  "0 \<le> j \<Longrightarrow> nat j \<le> length ys
     \<Longrightarrow> splice_insert j x ys = take (nat j) ys @ [x] @ drop (nat j) ys"
  by (simp add: splice_insert_def splice_start_def Let_def)

lemma reposition_found:
  assumes "cached s = Some xs" "i < length xs" "hasId cid (xs ! i)" "\<forall>j<i. \<not> hasId cid (xs ! j)"
  shows "cached (snd (repositionCategory_onMutate cid np s)) =
     Some (if np = int i \<or> np \<ge> int (length xs) \<or> np < 0 then xs
           else splice_insert np (xs ! i) (splice_delete1 (int i) xs))"
proof -
  from assms(1) obtain r where r: "categories s = Some r" "r < length (heap s)" "heap s ! r = xs"
    using cachedD by blast
  have f: "findObjectAndIndexCloneDeep (hasId cid) xs = (int i, Some (xs ! i))"
    using assms by (intro find_found) auto
  show ?thesis using r f assms(2)
    by (simp add: repositionCategory_onMutate_def Let_def cancelQueries_def getQueryData_def
        setQueryDataWith_def reposition_updater_def setQueryData_def cached_def)
qed

lemma reposition_missing:
  assumes "cached s = Some xs" "\<forall>e\<in>set xs. \<not> hasId cid e"
  shows "cached (snd (repositionCategory_onMutate cid np s)) = Some xs"
proof -
  from assms(1) obtain r where r: "categories s = Some r" "r < length (heap s)" "heap s ! r = xs"
    using cachedD by blast
  have f: "findObjectAndIndexCloneDeep (hasId cid) xs = (- 1, None)"
    using assms by (intro find_missing) auto
  show ?thesis using r f
    by (simp add: repositionCategory_onMutate_def Let_def cancelQueries_def getQueryData_def
        setQueryDataWith_def reposition_updater_def setQueryData_def cached_def)
qed

lemma insert_at_props:
  assumes "j \<le> length zs"
  shows "length (take j zs @ [x] @ drop j zs) = Suc (length zs)"
    and "(take j zs @ [x] @ drop j zs) ! j = x"
    and "take j (take j zs @ [x] @ drop j zs) @ drop (Suc j) (take j zs @ [x] @ drop j zs) = zs"
proof -
  have lt: "length (take j zs) = j" using assms by simp
  show "length (take j zs @ [x] @ drop j zs) = Suc (length zs)" by simp
  show "(take j zs @ [x] @ drop j zs) ! j = x"
    using lt by (simp add: nth_append)
  have a: "take j (take j zs @ [x] @ drop j zs) = take j zs"
    using lt by simp
  have b: "drop (Suc j) (take j zs @ [x] @ drop j zs) = drop j zs"
    using lt by simp
  show "take j (take j zs @ [x] @ drop j zs) @ drop (Suc j) (take j zs @ [x] @ drop j zs) = zs"
    unfolding a b by simp
qed

lemmas hook_defs =
  cancelQueries_def getQueryData_def setQueryDataWith_def setQueryData_def cached_def
  alloc_def Let_def

lemma update_found:
  assumes "cached s = Some xs" "i < length xs" "hasId cid (xs ! i)" "\<forall>j<i. \<not> hasId cid (xs ! j)"
  shows "cached (snd (updateCategory_onMutate cid dto s)) = Some (xs[i := xs ! i ++ dto])"
proof -
  from assms(1) obtain r where r: "categories s = Some r" "r < length (heap s)" "heap s ! r = xs"
    using cachedD by blast
  have f: "findObjectAndIndexCloneDeep (hasId cid) xs = (int i, Some (xs ! i))"
    using assms by (intro find_found) auto
  show ?thesis using r f assms(2)
    by (simp add: updateCategory_onMutate_def update_updater_def array_set_def hook_defs)
qed

lemma update_missing:
  assumes "cached s = Some xs" "\<forall>e\<in>set xs. \<not> hasId cid e"
  shows "cached (snd (updateCategory_onMutate cid dto s)) = Some []"
proof -
  from assms(1) obtain r where r: "categories s = Some r" "r < length (heap s)" "heap s ! r = xs"
    using cachedD by blast
  have f: "findObjectAndIndexCloneDeep (hasId cid) xs = (- 1, None)"
    using assms by (intro find_missing) auto
  show ?thesis using r f
    by (simp add: updateCategory_onMutate_def update_updater_def hook_defs)
qed

lemma delete_cached:
  assumes "cached s = Some xs"
  shows "cached (snd (deleteCategory_onMutate cid s)) = Some (filter (\<lambda>e. \<not> hasId cid e) xs)"
proof -
  from assms(1) obtain r where r: "categories s = Some r" "r < length (heap s)" "heap s ! r = xs"
    using cachedD by blast
  show ?thesis using r
    by (simp add: deleteCategory_onMutate_def delete_updater_def hook_defs)
qed

lemma create_cached:
  assumes "cached s = Some xs"
  shows "cached (snd (createCategory_onMutate mk dto s)) = Some (xs @ [mk dto])"
proof -
  from assms(1) obtain r where r: "categories s = Some r" "r < length (heap s)" "heap s ! r = xs"
    using cachedD by blast
  show ?thesis using r
    by (simp add: createCategory_onMutate_def create_updater_def hook_defs)
qed

lemma create_uncached:
  assumes "categories s = None"
  shows "cached (snd (createCategory_onMutate mk dto s)) = Some [mk dto]"
  using assms by (simp add: createCategory_onMutate_def create_updater_def hook_defs)

lemma uncached_empty:
  assumes "categories s = None"
  shows "cached (snd (updateCategory_onMutate cid dto s)) = Some []"
    and "cached (snd (repositionCategory_onMutate cid np s)) = Some []"
    and "cached (snd (deleteCategory_onMutate cid s)) = Some []"
  using assms
  by (simp_all add: updateCategory_onMutate_def update_updater_def
      repositionCategory_onMutate_def reposition_updater_def
      deleteCategory_onMutate_def delete_updater_def hook_defs)

lemma board_cached: "cached board = Some [catA, catB, catC]"
  by (simp add: board_def cached_def)

subsection \<open>Reposition\<close>

text \<open>
  C4. The cache holds a Collection \<open>xs\<close> and \<open>i\<close> is the index at which the target
  identity is found (the first such index; with unique identities, the only one, see
  \<open>unique_is_first\<close>). When \<open>newPosition\<close> is \<open>i\<close>, negative, or at least the length,
  the Collection in the cache is unchanged. Otherwise the Collection afterwards has the
  same length, holds the moved element at index \<open>newPosition\<close>, and without that index
  it is the old Collection without index \<open>i\<close>: the other elements keep their relative
  order. When no element has the target identity, the Collection is unchanged.
\<close>

theorem reposition_boundary_behaviour:
  assumes "cached s = Some xs"
  shows "(i < length xs \<and> hasId categoryId (xs ! i) \<and> (\<forall>j<i. \<not> hasId categoryId (xs ! j)) \<longrightarrow>
            (newPosition = int i \<or> newPosition < 0 \<or> int (length xs) \<le> newPosition \<longrightarrow>
               cached (snd (repositionCategory_onMutate categoryId newPosition s)) = Some xs)
          \<and> (0 \<le> newPosition \<and> newPosition < int (length xs) \<and> newPosition \<noteq> int i \<longrightarrow>
               (\<exists>ys. cached (snd (repositionCategory_onMutate categoryId newPosition s)) = Some ys
                  \<and> length ys = length xs
                  \<and> ys ! nat newPosition = xs ! i
                  \<and> take (nat newPosition) ys @ drop (Suc (nat newPosition)) ys
                      = take i xs @ drop (Suc i) xs)))
       \<and> ((\<forall>e\<in>set xs. \<not> hasId categoryId e) \<longrightarrow>
            cached (snd (repositionCategory_onMutate categoryId newPosition s)) = Some xs)"
proof (intro conjI impI)
  assume "\<forall>e\<in>set xs. \<not> hasId categoryId e"
  then show "cached (snd (repositionCategory_onMutate categoryId newPosition s)) = Some xs"
    using assms by (rule reposition_missing [rotated])
next
  assume f: "i < length xs \<and> hasId categoryId (xs ! i) \<and> (\<forall>j<i. \<not> hasId categoryId (xs ! j))"
    and "newPosition = int i \<or> newPosition < 0 \<or> int (length xs) \<le> newPosition"
  then show "cached (snd (repositionCategory_onMutate categoryId newPosition s)) = Some xs"
    using reposition_found [OF assms, of i categoryId newPosition] by auto
next
  assume f: "i < length xs \<and> hasId categoryId (xs ! i) \<and> (\<forall>j<i. \<not> hasId categoryId (xs ! j))"
    and n: "0 \<le> newPosition \<and> newPosition < int (length xs) \<and> newPosition \<noteq> int i"
  let ?zs = "take i xs @ drop (Suc i) xs"
  let ?j = "nat newPosition"
  let ?ys = "take ?j ?zs @ [xs ! i] @ drop ?j ?zs"
  have len: "length ?zs = length xs - 1" using f by simp
  have j: "?j \<le> length ?zs" using n len by linarith
  have del: "splice_delete1 (int i) xs = ?zs"
    using f by (simp add: splice_delete1_nth)
  have ins: "splice_insert newPosition (xs ! i) ?zs = ?ys"
    using n j by (intro splice_insert_nth) auto
  have c: "cached (snd (repositionCategory_onMutate categoryId newPosition s)) = Some ?ys"
    using reposition_found [OF assms, of i categoryId newPosition] f n del ins by auto
  have a: "length ?ys = Suc (length ?zs)"
    by (rule insert_at_props(1) [OF j])
  from f have il: "i < length xs" by blast
  have b: "Suc (length xs - 1) = length xs"
    using il by arith
  have "length ?ys = length xs"
    by (simp only: a len b)
  moreover have "?ys ! ?j = xs ! i"
    using insert_at_props(2) [OF j] .
  moreover have "take ?j ?ys @ drop (Suc ?j) ?ys = ?zs"
    using insert_at_props(3) [OF j] .
  ultimately show "\<exists>ys. cached (snd (repositionCategory_onMutate categoryId newPosition s)) = Some ys
                  \<and> length ys = length xs
                  \<and> ys ! nat newPosition = xs ! i
                  \<and> take (nat newPosition) ys @ drop (Suc (nat newPosition)) ys
                      = take i xs @ drop (Suc i) xs"
    using c by blast
qed

theorem reposition_boundary_behaviour_witness:
  "cached board = Some [catA, catB, catC]
   \<and> (\<exists>ys. cached (snd (repositionCategory_onMutate (Num 3) 0 board)) = Some ys
         \<and> length ys = 3 \<and> ys ! 0 = catC \<and> take 0 ys @ drop (Suc 0) ys = [catA, catB])
   \<and> cached (snd (repositionCategory_onMutate (Num 3) 2 board)) = Some [catA, catB, catC]
   \<and> cached (snd (repositionCategory_onMutate (Num 3) 3 board)) = Some [catA, catB, catC]
   \<and> cached (snd (repositionCategory_onMutate (Num 3) (- 1) board)) = Some [catA, catB, catC]
   \<and> cached (snd (repositionCategory_onMutate (Num 7) 0 board)) = Some [catA, catB, catC]"
proof -
  have first: "2 < length [catA, catB, catC] \<and> hasId (Num 3) ([catA, catB, catC] ! 2)
      \<and> (\<forall>j<2. \<not> hasId (Num 3) ([catA, catB, catC] ! j))"
    by (simp add: hasId_def catA_def catB_def catC_def less_Suc_eq numeral_2_eq_2)
  have missing: "\<forall>e\<in>set [catA, catB, catC]. \<not> hasId (Num 7) e"
    by (simp add: hasId_def catA_def catB_def catC_def)
  note t = reposition_boundary_behaviour [OF board_cached]
  show ?thesis
    using first missing board_cached
      t [of 2 "Num 3" 0] t [of 2 "Num 3" 2] t [of 2 "Num 3" 3] t [of 2 "Num 3" "- 1"]
      t [of 0 "Num 7" 0]
    by (simp add: numeral_3_eq_3)
qed

subsection \<open>Update\<close>

text \<open>
  C5. The cache holds a Collection \<open>xs\<close>. When \<open>i\<close> is the index at which the target
  identity is found, the Collection afterwards holds at index \<open>i\<close> the object
  \<open>{...xs[i], ...updateCategoryDto}\<close>: every property of the request has the request's
  value, every property the request does not have keeps the value it had in \<open>xs[i]\<close>.
  When no element has the target identity, the Collection afterwards is empty.
\<close>

theorem update_merge_law:
  assumes "cached s = Some xs"
  shows "(i < length xs \<and> hasId categoryId (xs ! i) \<and> (\<forall>j<i. \<not> hasId categoryId (xs ! j)) \<longrightarrow>
            (\<exists>ys. cached (snd (updateCategory_onMutate categoryId updateCategoryDto s)) = Some ys
               \<and> i < length ys
               \<and> ys ! i = xs ! i ++ updateCategoryDto
               \<and> (\<forall>k v. updateCategoryDto k = Some v \<longrightarrow> (ys ! i) k = Some v)
               \<and> (\<forall>k. updateCategoryDto k = None \<longrightarrow> (ys ! i) k = (xs ! i) k)))
       \<and> ((\<forall>e\<in>set xs. \<not> hasId categoryId e) \<longrightarrow>
            cached (snd (updateCategory_onMutate categoryId updateCategoryDto s)) = Some [])"
proof (intro conjI impI)
  assume "\<forall>e\<in>set xs. \<not> hasId categoryId e"
  then show "cached (snd (updateCategory_onMutate categoryId updateCategoryDto s)) = Some []"
    using assms by (rule update_missing [rotated])
next
  assume f: "i < length xs \<and> hasId categoryId (xs ! i) \<and> (\<forall>j<i. \<not> hasId categoryId (xs ! j))"
  let ?ys = "xs[i := xs ! i ++ updateCategoryDto]"
  from f have il: "i < length xs" by blast
  have c: "cached (snd (updateCategory_onMutate categoryId updateCategoryDto s)) = Some ?ys"
    using update_found [OF assms, of i categoryId updateCategoryDto] f by blast
  have e: "?ys ! i = xs ! i ++ updateCategoryDto"
    using il by simp
  have "\<forall>k v. updateCategoryDto k = Some v \<longrightarrow> (?ys ! i) k = Some v"
    unfolding e by (simp add: map_add_def)
  moreover have "\<forall>k. updateCategoryDto k = None \<longrightarrow> (?ys ! i) k = (xs ! i) k"
    unfolding e by (simp add: map_add_def)
  moreover have "i < length ?ys" using il by simp
  ultimately show "\<exists>ys. cached (snd (updateCategory_onMutate categoryId updateCategoryDto s)) = Some ys
               \<and> i < length ys
               \<and> ys ! i = xs ! i ++ updateCategoryDto
               \<and> (\<forall>k v. updateCategoryDto k = Some v \<longrightarrow> (ys ! i) k = Some v)
               \<and> (\<forall>k. updateCategoryDto k = None \<longrightarrow> (ys ! i) k = (xs ! i) k)"
    using c e by blast
qed

theorem update_merge_law_witness:
  "cached board = Some [catA, catB, catC]
   \<and> (\<exists>ys. cached (snd (updateCategory_onMutate (Num 2) titleD board)) = Some ys
         \<and> (ys ! 1) ''title'' = Some (Str ''D'') \<and> (ys ! 1) ''id'' = Some (Num 2))
   \<and> cached (snd (updateCategory_onMutate (Num 7) titleD board)) = Some []"
proof -
  have first: "1 < length [catA, catB, catC] \<and> hasId (Num 2) ([catA, catB, catC] ! 1)
      \<and> (\<forall>j<1. \<not> hasId (Num 2) ([catA, catB, catC] ! j))"
    by (simp add: hasId_def catA_def catB_def catC_def)
  have missing: "\<forall>e\<in>set [catA, catB, catC]. \<not> hasId (Num 7) e"
    by (simp add: hasId_def catA_def catB_def catC_def)
  have d: "titleD ''title'' = Some (Str ''D'')" "titleD ''id'' = None"
    by (simp_all add: titleD_def)
  have b: "catB ''id'' = Some (Num 2)" by (simp add: catB_def)
  note t = update_merge_law [OF board_cached]
  from t [of 1 "Num 2" titleD] first obtain ys where
    ys: "cached (snd (updateCategory_onMutate (Num 2) titleD board)) = Some ys"
      "\<forall>k v. titleD k = Some v \<longrightarrow> (ys ! 1) k = Some v"
      "\<forall>k. titleD k = None \<longrightarrow> (ys ! 1) k = ([catA, catB, catC] ! 1) k"
    by blast
  have "(ys ! 1) ''title'' = Some (Str ''D'')" using ys(2) d(1) by blast
  moreover have "(ys ! 1) ''id'' = Some (Num 2)" using ys(3) d(2) b by simp
  moreover have "cached (snd (updateCategory_onMutate (Num 7) titleD board)) = Some []"
    using t [of 0 "Num 7" titleD] missing by blast
  ultimately show ?thesis using ys(1) board_cached by blast
qed

text \<open>
  C10. The cache holds a Collection \<open>xs\<close> and the target identity is found at index
  \<open>i\<close>. The Collection after the update transform has the length of \<open>xs\<close> and the
  same element as \<open>xs\<close> at every index other than \<open>i\<close>.
\<close>

theorem update_frame:
  assumes "cached s = Some xs"
    and "i < length xs"
    and "hasId categoryId (xs ! i)"
    and "\<forall>j<i. \<not> hasId categoryId (xs ! j)"
  shows "\<exists>ys. cached (snd (updateCategory_onMutate categoryId updateCategoryDto s)) = Some ys
           \<and> length ys = length xs
           \<and> (\<forall>j<length xs. j \<noteq> i \<longrightarrow> ys ! j = xs ! j)"
proof -
  let ?ys = "xs[i := xs ! i ++ updateCategoryDto]"
  have "cached (snd (updateCategory_onMutate categoryId updateCategoryDto s)) = Some ?ys"
    using assms by (rule update_found)
  moreover have "length ?ys = length xs" by simp
  moreover have "\<forall>j<length xs. j \<noteq> i \<longrightarrow> ?ys ! j = xs ! j" by simp
  ultimately show ?thesis by blast
qed

theorem update_frame_witness:
  "\<exists>ys. cached (snd (updateCategory_onMutate (Num 2) titleD board)) = Some ys
      \<and> length ys = 3 \<and> ys ! 0 = catA \<and> ys ! 2 = catC"
proof -
  have h: "hasId (Num 2) ([catA, catB, catC] ! 1)"
     "\<forall>j<1. \<not> hasId (Num 2) ([catA, catB, catC] ! j)"
    by (simp_all add: hasId_def catA_def catB_def catC_def)
  from update_frame [OF board_cached _ h, of titleD] obtain ys where
    ys: "cached (snd (updateCategory_onMutate (Num 2) titleD board)) = Some ys"
      "length ys = length [catA, catB, catC]"
      "\<forall>j<length [catA, catB, catC]. j \<noteq> 1 \<longrightarrow> ys ! j = [catA, catB, catC] ! j"
    by auto
  have "ys ! 0 = catA" using ys(3) by simp
  moreover have "ys ! 2 = catC" using ys(3) by simp
  moreover have "length ys = 3" using ys(2) by simp
  ultimately show ?thesis using ys(1) by blast
qed

lemma distinct_all_equal:
  "distinct zs \<Longrightarrow> \<forall>z\<in>set zs. z = a \<Longrightarrow> length zs \<le> 1"
proof (cases zs)
  case Nil
  then show ?thesis by simp
next
  case (Cons z zs')
  assume d: "distinct zs" and e: "\<forall>z\<in>set zs. z = a"
  have "zs' = []"
  proof (cases zs')
    case Nil
    then show ?thesis .
  next
    case (Cons y ys)
    with \<open>zs = z # zs'\<close> d e show ?thesis by auto
  qed
  with Cons show ?thesis by simp
qed

lemma unique_at_most_one:
  assumes "distinct (map (\<lambda>e. e ''id'') xs)"
  shows "length (filter (hasId X) xs) \<le> 1"
proof -
  have "distinct (map (\<lambda>e. e ''id'') (filter (hasId X) xs))"
    using assms by (rule distinct_map_filter)
  moreover have "\<forall>z\<in>set (map (\<lambda>e. e ''id'') (filter (hasId X) xs)). z = Some X"
    by (auto simp: hasId_def)
  ultimately have "length (map (\<lambda>e. e ''id'') (filter (hasId X) xs)) \<le> 1"
    by (rule distinct_all_equal)
  then show ?thesis by simp
qed

subsection \<open>Delete\<close>

text \<open>
  C6. The cache holds a Collection \<open>xs\<close>. The Collection after the delete transform is
  \<open>xs\<close> without the elements whose identity is \<open>X\<close>: it is a subsequence of \<open>xs\<close>
  (relative order kept), its elements are exactly the elements of \<open>xs\<close> with another
  identity, the elements left out are as many as have identity \<open>X\<close>, and that is at
  most one when the identities in \<open>xs\<close> are unique.
\<close>

theorem delete_exclusivity:
  assumes "cached s = Some xs"
  shows "\<exists>ys. cached (snd (deleteCategory_onMutate X s)) = Some ys
           \<and> ys = filter (\<lambda>e. \<not> hasId X e) xs
           \<and> subseq ys xs
           \<and> (\<forall>e. e \<in> set ys \<longleftrightarrow> e \<in> set xs \<and> \<not> hasId X e)
           \<and> length xs = length ys + length (filter (hasId X) xs)
           \<and> (distinct (map (\<lambda>e. e ''id'') xs) \<longrightarrow> length xs \<le> length ys + 1)"
proof -
  let ?ys = "filter (\<lambda>e. \<not> hasId X e) xs"
  have c: "cached (snd (deleteCategory_onMutate X s)) = Some ?ys"
    using assms by (rule delete_cached)
  have s: "subseq ?ys xs" by simp
  have m: "\<forall>e. e \<in> set ?ys \<longleftrightarrow> e \<in> set xs \<and> \<not> hasId X e" by auto
  have l: "length xs = length ?ys + length (filter (hasId X) xs)"
    using sum_length_filter_compl [of "hasId X" xs] by simp
  have u: "distinct (map (\<lambda>e. e ''id'') xs) \<longrightarrow> length xs \<le> length ?ys + 1"
    using l unique_at_most_one [of xs X] by linarith
  show ?thesis
  proof (intro exI conjI)
    show "cached (snd (deleteCategory_onMutate X s)) = Some ?ys" by (rule c)
    show "?ys = filter (\<lambda>e. \<not> hasId X e) xs" by (rule refl)
    show "subseq ?ys xs" by (rule s)
    show "\<forall>e. e \<in> set ?ys \<longleftrightarrow> e \<in> set xs \<and> \<not> hasId X e" by (rule m)
    show "length xs = length ?ys + length (filter (hasId X) xs)" by (rule l)
    show "distinct (map (\<lambda>e. e ''id'') xs) \<longrightarrow> length xs \<le> length ?ys + 1" by (rule u)
  qed
qed

theorem delete_exclusivity_witness:
  "\<exists>ys. cached (snd (deleteCategory_onMutate (Num 2) board)) = Some ys \<and> ys = [catA, catC]"
proof -
  have f: "filter (\<lambda>e. \<not> hasId (Num 2) e) [catA, catB, catC] = [catA, catC]"
    by (simp add: hasId_def catA_def catB_def catC_def)
  from delete_exclusivity [OF board_cached, of "Num 2"] obtain ys where
    "cached (snd (deleteCategory_onMutate (Num 2) board)) = Some ys"
    "ys = filter (\<lambda>e. \<not> hasId (Num 2) e) [catA, catB, catC]"
    by (elim exE conjE)
  then show ?thesis using f by simp
qed

subsection \<open>Create\<close>

text \<open>
  C7. The create transform makes one optimistic entity from the request. With a
  Collection \<open>xs\<close> in the cache, the Collection afterwards is \<open>xs\<close> followed by that
  entity; with nothing in the cache, it is the one-element Collection of that entity.
\<close>

theorem create_appends:
  "(cached s = Some xs \<longrightarrow>
      cached (snd (createCategory_onMutate createOptimisticCategory createCategoryDto s))
        = Some (xs @ [createOptimisticCategory createCategoryDto]))
   \<and> (categories s = None \<longrightarrow>
      cached (snd (createCategory_onMutate createOptimisticCategory createCategoryDto s))
        = Some [createOptimisticCategory createCategoryDto])"
  by (simp add: create_cached create_uncached)

theorem create_appends_witness:
  "cached (snd (createCategory_onMutate exampleFactory titleD board))
     = Some [catA, catB, catC, exampleFactory titleD]
   \<and> cached (snd (createCategory_onMutate exampleFactory titleD noBoard))
     = Some [exampleFactory titleD]"
proof -
  have n: "categories noBoard = None" by (simp add: noBoard_def)
  show ?thesis
    using create_appends [of board "[catA, catB, catC]" exampleFactory titleD]
      create_appends [of noBoard "[]" exampleFactory titleD] board_cached n
    by simp
qed

lemma cached_present: "cached w = Some xs \<Longrightarrow> categories w \<noteq> None"
  by (auto simp: cached_def split: option.splits)

subsection \<open>Identity-targeted transforms on an empty cache\<close>

text \<open>
  C9. With nothing in the cache under the key, the update, reposition and delete
  transforms each install the empty Collection: afterwards the key holds a Collection,
  and it is empty.
\<close>

theorem uncached_installs_empty:
  assumes "categories s = None"
  shows "cached (snd (updateCategory_onMutate categoryId updateCategoryDto s)) = Some []
       \<and> cached (snd (repositionCategory_onMutate categoryId newPosition s)) = Some []
       \<and> cached (snd (deleteCategory_onMutate categoryId s)) = Some []
       \<and> categories (snd (updateCategory_onMutate categoryId updateCategoryDto s)) \<noteq> None
       \<and> categories (snd (repositionCategory_onMutate categoryId newPosition s)) \<noteq> None
       \<and> categories (snd (deleteCategory_onMutate categoryId s)) \<noteq> None"
proof -
  have e: "cached (snd (updateCategory_onMutate categoryId updateCategoryDto s)) = Some []"
    "cached (snd (repositionCategory_onMutate categoryId newPosition s)) = Some []"
    "cached (snd (deleteCategory_onMutate categoryId s)) = Some []"
    using assms by (rule uncached_empty)+
  show ?thesis using e cached_present [OF e(1)] cached_present [OF e(2)] cached_present [OF e(3)]
    by simp
qed

theorem uncached_installs_empty_witness:
  "categories noBoard = None
   \<and> cached (snd (updateCategory_onMutate (Num 2) titleD noBoard)) = Some []
   \<and> cached (snd (repositionCategory_onMutate (Num 2) 0 noBoard)) = Some []
   \<and> cached (snd (deleteCategory_onMutate (Num 2) noBoard)) = Some []"
proof -
  have n: "categories noBoard = None" by (simp add: noBoard_def)
  show ?thesis
    using n uncached_installs_empty [OF n, of "Num 2" titleD 0] by simp
qed

subsection \<open>The ERROR phase\<close>

lemma effects_setQueryDataWith:
  "effects (setQueryDataWith u s) = effects s @ [SetQueryData ''categories'']"
  by (simp add: setQueryDataWith_def setQueryData_def split: prod.splits)

lemma effects_onMutate:
  "effects (snd (onMutate mk vars s))
     = effects s @ [CancelQueries ''categories'', SetQueryData ''categories'']"
  by (cases vars)
    (simp_all add: createCategory_onMutate_def updateCategory_onMutate_def
      repositionCategory_onMutate_def deleteCategory_onMutate_def Let_def
      effects_setQueryDataWith cancelQueries_def)

lemma previous_onMutate:
  "previousCategories (fst (onMutate mk vars s)) = categories s"
  by (cases vars)
    (simp_all add: createCategory_onMutate_def updateCategory_onMutate_def
      repositionCategory_onMutate_def deleteCategory_onMutate_def Let_def
      getQueryData_def cancelQueries_def)

lemma onError_shape:
  "\<exists>pre. \<forall>err ctxt s.
     onError vars err ctxt s = toast_error (pre @ ''Category'' @ errSuffix err) (restore ctxt s)"
proof (cases vars)
  case (CreateVars dto)
  have "\<forall>err ctxt s. onError vars err ctxt s =
      toast_error (''An error occurred while creating a new '' @ ''Category'' @ errSuffix err) (restore ctxt s)"
    (is "?P ''An error occurred while creating a new ''")
    by (simp add: CreateVars createCategory_onError_def restore_def)
  then show ?thesis by (rule exI [of ?P "''An error occurred while creating a new ''"])
next
  case (UpdateVars cid dto)
  have "\<forall>err ctxt s. onError vars err ctxt s =
      toast_error (''An error occurred while updating '' @ ''Category'' @ errSuffix err) (restore ctxt s)"
    (is "?P ''An error occurred while updating ''")
    by (simp add: UpdateVars updateCategory_onError_def restore_def)
  then show ?thesis by (rule exI [of ?P "''An error occurred while updating ''"])
next
  case (RepositionVars cid np)
  have "\<forall>err ctxt s. onError vars err ctxt s =
      toast_error (''An error occurred while repositioning '' @ ''Category'' @ errSuffix err) (restore ctxt s)"
    (is "?P ''An error occurred while repositioning ''")
    by (simp add: RepositionVars repositionCategory_onError_def restore_def)
  then show ?thesis by (rule exI [of ?P "''An error occurred while repositioning ''"])
next
  case (DeleteVars cid)
  have "\<forall>err ctxt s. onError vars err ctxt s =
      toast_error (''An error occurred while deleting the '' @ ''Category'' @ errSuffix err) (restore ctxt s)"
    (is "?P ''An error occurred while deleting the ''")
    by (simp add: DeleteVars deleteCategory_onError_def restore_def)
  then show ?thesis by (rule exI [of ?P "''An error occurred while deleting the ''"])
qed

text \<open>
  C8. For each of the four mutations there is a fixed text ending in the entity type,
  \<open>... Category\<close>, such that for every error value, context and state the \<open>onError\<close>
  hook has exactly these effects: one cache write if the context holds a snapshot and
  none otherwise, then one error toast whose message is that text, followed by a line
  break and \<open>String(err)\<close> when the error value is truthy and by nothing when it is not.
  When the context holds a snapshot, the cache afterwards holds that very array and no
  array has been written to.
\<close>

theorem error_branch:
  "\<exists>pre. \<forall>err ctxt s.
     effects (onError vars err ctxt s) =
       effects s
       @ (case ctxt of
            Some c \<Rightarrow> (case previousCategories c of
                         Some r \<Rightarrow> [SetQueryData ''categories'']
                       | None \<Rightarrow> [])
          | None \<Rightarrow> [])
       @ [ToastError (pre @ ''Category'' @ (case err of Some t \<Rightarrow> CHR 0x0A # t | None \<Rightarrow> []))]
     \<and> (\<forall>c r. ctxt = Some c \<and> previousCategories c = Some r \<longrightarrow>
           categories (onError vars err ctxt s) = Some r
           \<and> heap (onError vars err ctxt s) = heap s)"
proof -
  from onError_shape [of vars] obtain pre where
    p: "\<And>err ctxt s. onError vars err ctxt s
          = toast_error (pre @ ''Category'' @ errSuffix err) (restore ctxt s)"
    by blast
  have "\<forall>err ctxt s.
     effects (onError vars err ctxt s) =
       effects s
       @ (case ctxt of
            Some c \<Rightarrow> (case previousCategories c of
                         Some r \<Rightarrow> [SetQueryData ''categories'']
                       | None \<Rightarrow> [])
          | None \<Rightarrow> [])
       @ [ToastError (pre @ ''Category'' @ (case err of Some t \<Rightarrow> CHR 0x0A # t | None \<Rightarrow> []))]
     \<and> (\<forall>c r. ctxt = Some c \<and> previousCategories c = Some r \<longrightarrow>
           categories (onError vars err ctxt s) = Some r
           \<and> heap (onError vars err ctxt s) = heap s)"
    (is "?Q pre")
    by (simp add: p toast_error_def restore_def setQueryData_def errSuffix_def
        split: option.splits)
  then show ?thesis by (rule exI [of ?Q pre])
qed

theorem error_branch_witness:
  "categories (onError (DeleteVars (Num 1)) (Some ''Error: Network Error'')
       (Some \<lparr>previousCategories = Some 0\<rparr>) board) = Some 0
   \<and> heap (onError (DeleteVars (Num 1)) (Some ''Error: Network Error'')
       (Some \<lparr>previousCategories = Some 0\<rparr>) board) = heap board"
proof -
  from error_branch [of "DeleteVars (Num 1) :: (jsval, unit) variables"] obtain pre where
    "\<forall>err ctxt (s :: jsval world).
       (\<forall>c r. ctxt = Some c \<and> previousCategories c = Some r \<longrightarrow>
           categories (onError (DeleteVars (Num 1) :: (jsval, unit) variables) err ctxt s) = Some r
           \<and> heap (onError (DeleteVars (Num 1) :: (jsval, unit) variables) err ctxt s) = heap s)"
    by (elim exE) simp
  then show ?thesis by simp
qed

subsection \<open>Settlement\<close>

lemma onSuccess_effects: "\<exists>m. effects (onSuccess vars t w) = effects w @ [ToastSuccess m]"
  by (cases vars)
    (simp_all add: toast_success_def createCategory_onSuccess_def updateCategory_onSuccess_def
      repositionCategory_onSuccess_def deleteCategory_onSuccess_def)

lemma onSettled_shape: "onSettled vars w = invalidateQueries w"
  by (cases vars)
    (simp_all add: createCategory_onSettled_def updateCategory_onSettled_def
      repositionCategory_onSettled_def deleteCategory_onSettled_def)

lemma onError_toast:
  "\<exists>m. onError vars err ctxt w = toast_error m (restore ctxt w)"
proof -
  from onError_shape [of vars] obtain pre where
    "\<And>err ctxt s. onError vars err ctxt s
          = toast_error (pre @ ''Category'' @ errSuffix err) (restore ctxt s)"
    by blast
  then show ?thesis by (intro exI)
qed

text \<open>
  C3. For every invocation, with the transport call resolved or rejected, the effects
  the invocation adds end with a toast followed by \<open>invalidateQueries('categories')\<close>,
  and there is no other invalidation among them: exactly one invalidation, after the
  success toast when the call resolved and after the error toast when it was rejected.
\<close>

theorem settlement_invariant:
  "\<exists>pre n. effects (runMutation mk vars result s)
              = effects s @ pre @ [n, InvalidateQueries ''categories'']
     \<and> (\<forall>k. InvalidateQueries k \<notin> set pre)
     \<and> (case result of
           Resolved t \<Rightarrow> (\<exists>m. n = ToastSuccess m)
         | Rejected err \<Rightarrow> (\<exists>m. n = ToastError m))"
proof (cases result)
  case (Resolved t)
  obtain m where m: "effects (onSuccess vars t (snd (onMutate mk vars s)))
      = effects (snd (onMutate mk vars s)) @ [ToastSuccess m]"
    using onSuccess_effects by blast
  let ?pre = "[CancelQueries ''categories'', SetQueryData ''categories'']"
  have "effects (runMutation mk vars result s)
      = effects s @ ?pre @ [ToastSuccess m, InvalidateQueries ''categories'']"
    by (simp add: Resolved runMutation_def onSettled_shape m invalidateQueries_def
        effects_onMutate)
  moreover have "\<forall>k. InvalidateQueries k \<notin> set ?pre" by simp
  moreover have "case result of
           Resolved t \<Rightarrow> (\<exists>m'. ToastSuccess m = ToastSuccess m')
         | Rejected err \<Rightarrow> (\<exists>m'. ToastSuccess m = ToastError m')"
    by (simp add: Resolved)
  ultimately show ?thesis by (intro exI [of _ ?pre] exI [of _ "ToastSuccess m"] conjI)
next
  case (Rejected err)
  obtain ctxt s1 where o: "onMutate mk vars s = (ctxt, s1)" by (cases "onMutate mk vars s")
  have e1: "effects s1 = effects s @ [CancelQueries ''categories'', SetQueryData ''categories'']"
    using effects_onMutate [of mk vars s] o by simp
  obtain m where m: "onError vars err (Some ctxt) s1 = toast_error m (restore (Some ctxt) s1)"
    using onError_toast by blast
  let ?w = "case previousCategories ctxt of Some r \<Rightarrow> [SetQueryData ''categories''] | None \<Rightarrow> []"
  let ?pre = "[CancelQueries ''categories'', SetQueryData ''categories''] @ ?w"
  have e2: "effects (restore (Some ctxt) s1) = effects s1 @ ?w"
    by (simp add: restore_def setQueryData_def split: option.splits)
  have "effects (runMutation mk vars result s)
      = effects s @ ?pre @ [ToastError m, InvalidateQueries ''categories'']"
    by (simp add: Rejected runMutation_def afterError_def o onSettled_shape m
        invalidateQueries_def toast_error_def e1 e2)
  moreover have "\<forall>k. InvalidateQueries k \<notin> set ?pre" by (simp split: option.splits)
  moreover have "case result of
           Resolved t \<Rightarrow> (\<exists>m'. ToastError m = ToastSuccess m')
         | Rejected err \<Rightarrow> (\<exists>m'. ToastError m = ToastError m')"
    by (simp add: Rejected)
  ultimately show ?thesis by (intro exI [of _ ?pre] exI [of _ "ToastError m"] conjI)
qed

subsection \<open>Rollback\<close>

lemma cached_toast_error: "cached (toast_error m w) = cached w"
  by (simp add: cached_def toast_error_def split: option.splits)

lemma afterError_uncached:
  assumes "categories s = None"
  shows "\<exists>m. afterError mk vars err s = toast_error m (snd (onMutate mk vars s))"
proof -
  obtain ctxt s1 where o: "onMutate mk vars s = (ctxt, s1)" by (cases "onMutate mk vars s")
  have "previousCategories ctxt = None"
    using previous_onMutate [of mk vars s] o assms by simp
  then have r: "restore (Some ctxt) s1 = s1" by (simp add: restore_def)
  obtain m where "onError vars err (Some ctxt) s1 = toast_error m (restore (Some ctxt) s1)"
    using onError_toast by blast
  then have "afterError mk vars err s = toast_error m (snd (onMutate mk vars s))"
    by (simp add: afterError_def o r)
  then show ?thesis by (rule exI [of _ m])
qed

text \<open>
  C2, as the code has it. With nothing cached under the key, the context holds no
  snapshot and the ERROR phase writes nothing to the cache: its only effect is the
  error toast. The cache therefore keeps what APPLY installed: the one-element
  Collection of the optimistic entity for create, the empty Collection for update,
  reposition and delete.
\<close>

theorem uncached_rollback_keeps_applied:
  assumes "categories s = None"
  shows "previousCategories (fst (onMutate mk vars s)) = None
       \<and> categories (afterError mk vars err s) = categories (snd (onMutate mk vars s))
       \<and> heap (afterError mk vars err s) = heap (snd (onMutate mk vars s))
       \<and> (\<exists>m. effects (afterError mk vars err s)
               = effects (snd (onMutate mk vars s)) @ [ToastError m])
       \<and> cached (afterError mk vars err s)
           = Some (case vars of CreateVars dto \<Rightarrow> [mk dto] | _ \<Rightarrow> [])"
proof -
  obtain m where m: "afterError mk vars err s = toast_error m (snd (onMutate mk vars s))"
    using afterError_uncached [OF assms] by blast
  have p: "previousCategories (fst (onMutate mk vars s)) = None"
    using previous_onMutate [of mk vars s] assms by simp
  have c: "categories (afterError mk vars err s) = categories (snd (onMutate mk vars s))"
    and h: "heap (afterError mk vars err s) = heap (snd (onMutate mk vars s))"
    and e: "effects (afterError mk vars err s)
               = effects (snd (onMutate mk vars s)) @ [ToastError m]"
    by (simp_all add: m toast_error_def)
  have "cached (snd (onMutate mk vars s))
           = Some (case vars of CreateVars dto \<Rightarrow> [mk dto] | _ \<Rightarrow> [])"
    using assms by (cases vars) (simp_all add: create_uncached uncached_empty)
  then have a: "cached (afterError mk vars err s)
           = Some (case vars of CreateVars dto \<Rightarrow> [mk dto] | _ \<Rightarrow> [])"
    by (simp add: m cached_toast_error)
  from e have e': "\<exists>m. effects (afterError mk vars err s)
               = effects (snd (onMutate mk vars s)) @ [ToastError m]"
    by (rule exI [of _ m])
  show ?thesis using p c h e' a by (intro conjI)
qed

theorem uncached_rollback_keeps_applied_witness:
  "categories noBoard = None
   \<and> cached (afterError exampleFactory (CreateVars titleD) None noBoard)
       = Some [exampleFactory titleD]
   \<and> cached (afterError exampleFactory (DeleteVars (Num 1)) None noBoard) = Some []"
proof -
  have n: "categories noBoard = None" by (simp add: noBoard_def)
  show ?thesis
    using n uncached_rollback_keeps_applied [OF n, of exampleFactory "CreateVars titleD" None]
      uncached_rollback_keeps_applied [OF n, of exampleFactory "DeleteVars (Num 1)" None]
    by simp
qed

text \<open>
  C2, as stated, fails for create: with nothing cached, after a failed create the cache
  is neither absent nor empty.
\<close>

theorem uncached_create_rollback_leaves_entity:
  "categories noBoard = None
   \<and> cached (afterError exampleFactory (CreateVars titleD) None noBoard) \<noteq> None
   \<and> cached (afterError exampleFactory (CreateVars titleD) None noBoard) \<noteq> Some []"
  by (simp add: noBoard_def afterError_def createCategory_onMutate_def create_updater_def
      createCategory_onError_def toast_error_def hook_defs)

text \<open>
  With a Collection cached, the rollback stores the snapshot reference again, so the
  cache shows what the snapshot array holds after APPLY. Create and delete build a new
  array and leave the snapshot array alone; update and reposition write into it.
\<close>

lemma rollback_shows_snapshot_array:
  assumes "categories s = Some r"
  shows "categories (afterError mk vars err s) = Some r
       \<and> heap (afterError mk vars err s) = heap (snd (onMutate mk vars s))"
proof -
  obtain ctxt s1 where o: "onMutate mk vars s = (ctxt, s1)" by (cases "onMutate mk vars s")
  have "previousCategories ctxt = Some r"
    using previous_onMutate [of mk vars s] o assms by simp
  then have r: "restore (Some ctxt) s1 = setQueryData r s1" by (simp add: restore_def)
  obtain m where "onError vars err (Some ctxt) s1 = toast_error m (restore (Some ctxt) s1)"
    using onError_toast by blast
  then show ?thesis
    by (simp add: afterError_def o r toast_error_def setQueryData_def)
qed

lemma rollback_create_restores:
  assumes "cached s = Some xs"
  shows "cached (afterError mk (CreateVars dto) err s) = Some xs"
proof -
  from assms obtain r where r: "categories s = Some r" "r < length (heap s)" "heap s ! r = xs"
    using cachedD by blast
  have "heap (snd (onMutate mk (CreateVars dto) s)) = heap s @ [xs @ [mk dto]]"
    using r by (simp add: createCategory_onMutate_def create_updater_def hook_defs)
  then show ?thesis
    using rollback_shows_snapshot_array [OF r(1), of mk "CreateVars dto" err] r
    by (simp add: cached_def nth_append)
qed

lemma rollback_delete_restores:
  assumes "cached s = Some xs"
  shows "cached (afterError mk (DeleteVars cid) err s) = Some xs"
proof -
  from assms obtain r where r: "categories s = Some r" "r < length (heap s)" "heap s ! r = xs"
    using cachedD by blast
  have "heap (snd (onMutate mk (DeleteVars cid) s))
      = heap s @ [filter (\<lambda>e. \<not> hasId cid e) xs]"
    using r by (simp add: deleteCategory_onMutate_def delete_updater_def hook_defs)
  then show ?thesis
    using rollback_shows_snapshot_array [OF r(1), of mk "DeleteVars cid" err] r
    by (simp add: cached_def nth_append)
qed

lemma rollback_update_keeps_edit:
  assumes "cached s = Some xs" "i < length xs" "hasId cid (xs ! i)" "\<forall>j<i. \<not> hasId cid (xs ! j)"
  shows "cached (afterError mk (UpdateVars cid dto) err s) = Some (xs[i := xs ! i ++ dto])"
proof -
  from assms(1) obtain r where r: "categories s = Some r" "r < length (heap s)" "heap s ! r = xs"
    using cachedD by blast
  have f: "findObjectAndIndexCloneDeep (hasId cid) xs = (int i, Some (xs ! i))"
    using assms by (intro find_found) auto
  have "heap (snd (onMutate mk (UpdateVars cid dto) s))
      = (heap s)[r := xs[i := xs ! i ++ dto]]"
    using r f assms(2)
    by (simp add: updateCategory_onMutate_def update_updater_def array_set_def hook_defs)
  then show ?thesis
    using rollback_shows_snapshot_array [OF r(1), of mk "UpdateVars cid dto" err] r
    by (simp add: cached_def)
qed

lemma rollback_reposition_keeps_move:
  assumes "cached s = Some xs" "i < length xs" "hasId cid (xs ! i)" "\<forall>j<i. \<not> hasId cid (xs ! j)"
    and "0 \<le> np" "np < int (length xs)" "np \<noteq> int i"
  shows "cached (afterError mk (RepositionVars cid np) err s)
      = Some (splice_insert np (xs ! i) (splice_delete1 (int i) xs))"
proof -
  from assms(1) obtain r where r: "categories s = Some r" "r < length (heap s)" "heap s ! r = xs"
    using cachedD by blast
  have f: "findObjectAndIndexCloneDeep (hasId cid) xs = (int i, Some (xs ! i))"
    using assms by (intro find_found) auto
  have "heap (snd (onMutate mk (RepositionVars cid np) s))
      = (heap s)[r := splice_insert np (xs ! i) (splice_delete1 (int i) xs)]"
    using r f assms(2,5,6,7)
    by (simp add: repositionCategory_onMutate_def reposition_updater_def hook_defs)
  then show ?thesis
    using rollback_shows_snapshot_array [OF r(1), of mk "RepositionVars cid np" err] r
    by (simp add: cached_def)
qed

lemma catC_differs: "catC \<noteq> catA"
proof
  assume "catC = catA"
  then have "catC ''id'' = catA ''id''" by simp
  then show False by (simp add: catA_def catC_def)
qed

text \<open>
  C1. The Collection is \<open>[A, B, C]\<close>; the element with identity 3 is repositioned to
  index 0 and the transport call fails. APPLY leaves \<open>[C, A, B]\<close> in the cache, and
  after the ERROR phase the cache still shows \<open>[C, A, B]\<close>, not \<open>[A, B, C]\<close>: the
  snapshot is the array that \<open>splice\<close> has changed.
\<close>

theorem rollback_after_reposition_scenario:
  "cached board = Some [catA, catB, catC]
   \<and> cached (snd (onMutate exampleFactory (RepositionVars (Num 3) 0) board))
       = Some [catC, catA, catB]
   \<and> cached (afterError exampleFactory (RepositionVars (Num 3) 0)
               (Some ''Error: Network Error'') board)
       = Some [catC, catA, catB]
   \<and> [catC, catA, catB] \<noteq> [catA, catB, catC]"
proof -
  have a: "cached (snd (onMutate exampleFactory (RepositionVars (Num 3) 0) board))
       = Some [catC, catA, catB]"
    by (simp add: board_def catA_def catB_def catC_def hook_defs
        repositionCategory_onMutate_def reposition_updater_def
        findObjectAndIndexCloneDeep_def hasId_def
        splice_insert_def splice_delete1_def splice_start_def)
  have b: "cached (afterError exampleFactory (RepositionVars (Num 3) 0)
               (Some ''Error: Network Error'') board)
       = Some [catC, catA, catB]"
    by (simp add: board_def catA_def catB_def catC_def hook_defs afterError_def
        repositionCategory_onMutate_def reposition_updater_def
        repositionCategory_onError_def toast_error_def
        findObjectAndIndexCloneDeep_def hasId_def
        splice_insert_def splice_delete1_def splice_start_def)
  show ?thesis using board_cached a b catC_differs by simp
qed

end
